theory Spec2Isabelle
  imports Main
begin

section \<open>The IR consumed by the OpenMP optimisation pass\<close>

text \<open>
  The pass in \<^verbatim>\<open>lib/polygeist/Passes/OpenMPOpt.cpp\<close> rewrites a tree of operations.
  An operation owns regions, a region is a list of blocks, a block is a list of operations.
  Values are named by numbers: \<open>results\<close> are the values an operation defines,
  \<open>operands\<close> the values it uses. Of the traits and interfaces of an operation only the two
  that \<open>isReadOnly\<close> consults are kept: the recursive-side-effects trait, and the
  memory-effect interface (\<open>None\<close> when the operation does not implement it, otherwise the
  list of effects that \<open>getEffects\<close> reports).
\<close>

datatype opkind = FuncOp | ParallelOp | ForOp | IfOp | BarrierOp | OtherOp string

datatype effect = Read | Write | Allocate | Free

datatype operation = Operation
  (kind: opkind)
  (operands: "nat list")
  (results: "nat list")
  (regions: "operation list list list")
  (hasRecursiveSideEffects: bool)
  (memoryEffects: "effect list option")

type_synonym block = "operation list"
type_synonym region = "block list"

text \<open>
  An operation inside a function is addressed by the path from the function to it: each step
  picks a region, a block of it, and an operation of that block. Paths stand for the
  \<^verbatim>\<open>Operation *\<close> of the source.
\<close>

type_synonym step = "nat \<times> nat \<times> nat"
type_synonym path = "step list"

text \<open>
  What the C++ leaves to assertions of the IR library or to undefined behaviour is an error
  value of the model.
\<close>

datatype error =
    InvalidPosition
  | NoRegion
  | EmptyRegion
  | EmptyBlock
  | NoParentBlock
  | ResultCountMismatch
  | OpHasUses

subsection \<open>The side-effect classifier\<close>

text \<open>
  \<^verbatim>\<open>bool isReadOnly(Operation *op)\<close>: with the recursive trait every nested operation must be
  read-only; then the operation itself must implement the memory-effect interface and
  report only \<open>Read\<close> effects. Without the interface the answer is \<open>False\<close>.
\<close>

fun isReadOnly :: "operation \<Rightarrow> bool" where
  "isReadOnly (Operation k os rs regs hasRecursiveEffects effectInterface) =
     (if hasRecursiveEffects \<and>
         \<not> list_all (\<lambda>region. list_all (\<lambda>block. list_all isReadOnly block) region) regs
      then False
      else (case effectInterface of
              Some effects \<Rightarrow> list_all (\<lambda>it. it = Read) effects
            | None \<Rightarrow> False))"

subsection \<open>Tree access\<close>

fun getOp :: "operation \<Rightarrow> path \<Rightarrow> operation option" where
  "getOp op [] = Some op"
| "getOp op ((r, b, i) # ps) =
     (if r < length (regions op) \<and> b < length (regions op ! r) \<and>
         i < length (regions op ! r ! b)
      then getOp (regions op ! r ! b ! i) ps else None)"

fun updOp :: "path \<Rightarrow> (operation \<Rightarrow> operation) \<Rightarrow> operation \<Rightarrow> operation" where
  "updOp [] f op = f op"
| "updOp ((r, b, i) # ps) f (Operation k os rs regs rec eff) =
     Operation k os rs
       (regs[r := (regs ! r)[b := (regs ! r ! b)[i := updOp ps f (regs ! r ! b ! i)]]])
       rec eff"

definition getBlock :: "operation \<Rightarrow> path \<Rightarrow> nat \<Rightarrow> nat \<Rightarrow> block option" where
  "getBlock func owner r b =
     (case getOp func owner of
        None \<Rightarrow> None
      | Some op \<Rightarrow>
          if r < length (regions op) \<and> b < length (regions op ! r)
          then Some (regions op ! r ! b) else None)"

fun setBlock :: "nat \<Rightarrow> nat \<Rightarrow> block \<Rightarrow> operation \<Rightarrow> operation" where
  "setBlock r b blk (Operation k os rs regs rec eff) =
     Operation k os rs (regs[r := (regs ! r)[b := blk]]) rec eff"

text \<open>\<^verbatim>\<open>op.getRegion().front()\<close> and \<^verbatim>\<open>getBody()\<close>: the first block of the first region.\<close>

definition frontBlock :: "operation \<Rightarrow> error + block" where
  "frontBlock op =
     (case regions op of
        [] \<Rightarrow> Inl NoRegion
      | region # _ \<Rightarrow> (case region of [] \<Rightarrow> Inl EmptyRegion | blk # _ \<Rightarrow> Inr blk))"

text \<open>\<^verbatim>\<open>Block::getTerminator()\<close>: the last operation of a block that has one.\<close>

definition getTerminator :: "block \<Rightarrow> error + operation" where
  "getTerminator blk = (if blk = [] then Inl EmptyBlock else Inr (last blk))"

text \<open>Unlinking the operation at index \<open>n\<close> from its block (erase, or the first half of a move).\<close>

definition eraseAt :: "nat \<Rightarrow> 'a list \<Rightarrow> 'a list" where
  "eraseAt n xs = take n xs @ drop (Suc n) xs"

text \<open>
  \<^verbatim>\<open>Operation::isAncestor\<close>: an operation is an ancestor of itself and of everything nested
  in its regions, so on paths it is the prefix order.
\<close>

fun isAncestor :: "path \<Rightarrow> path \<Rightarrow> bool" where
  "isAncestor [] other = True"
| "isAncestor (s # p) [] = False"
| "isAncestor (s # p) (t # q) = (s = t \<and> isAncestor p q)"

text \<open>\<^verbatim>\<open>Operation::walk\<close>: the operation and everything nested in it, each with its path.\<close>

function walk :: "operation \<Rightarrow> (path \<times> operation) list" where
  "walk (Operation k os rs regs rec eff) =
     ([], Operation k os rs regs rec eff) #
     concat (map (\<lambda>r. concat (map (\<lambda>b. concat (map (\<lambda>i.
        map (\<lambda>(p, x). ((r, b, i) # p, x)) (walk (regs ! r ! b ! i)))
        [0..<length (regs ! r ! b)])) [0..<length (regs ! r)])) [0..<length regs])"
  by pat_completeness auto
termination
proof (relation "measure size", goal_cases)
  case 1
  show ?case by simp
next
  case (2 k os rs regs rec eff r b i)
  have le: "\<And>f n (xs :: 'a list). n < length xs \<Longrightarrow> f (xs ! n) \<le> size_list f xs"
    using size_list_estimation'[OF nth_mem] by blast
  from 2 have r: "r < length regs" and b: "b < length (regs ! r)"
    and i: "i < length (regs ! r ! b)" by simp_all
  have "size (regs ! r ! b ! i) \<le> size_list size (regs ! r ! b)"
    using i by (rule le)
  also have "\<dots> \<le> size_list (size_list size) (regs ! r)"
    using b by (rule le)
  also have "\<dots> \<le> size_list (size_list (size_list size)) regs"
    using r by (rule le)
  finally show ?case by simp
qed

text \<open>\<^verbatim>\<open>Value::getUsers()\<close>: the operations of the function that have the value as operand.\<close>

definition getUsers :: "operation \<Rightarrow> nat \<Rightarrow> (path \<times> operation) list" where
  "getUsers func v = filter (\<lambda>(user, op). v \<in> set (operands op)) (walk func)"

text \<open>\<^verbatim>\<open>Operation::use_empty()\<close>, which \<^verbatim>\<open>eraseOp\<close> asserts.\<close>

definition useEmpty :: "operation \<Rightarrow> operation \<Rightarrow> bool" where
  "useEmpty func op = list_all (\<lambda>v. getUsers func v = []) (results op)"

text \<open>
  \<^verbatim>\<open>rewriter.clone(op)\<close> copies an operation with its regions. The results of the copy are
  new values in the source; every clone of the pass is followed by redirecting the uses of
  the original to the copy and erasing the original, so with values named by numbers the
  copy keeps the names.
\<close>

definition clone :: "operation \<Rightarrow> operation" where
  "clone op = op"

text \<open>\<^verbatim>\<open>omp.barrier\<close>: no operands, no results, no regions, no effect interface.\<close>

definition barrierOp :: operation where
  "barrierOp = Operation BarrierOp [] [] [] False None"

section \<open>CombineParallel\<close>

text \<open>
  The guard of lines 81 to 88: some parallel operation of the function is not contained in
  \<open>nextParallel\<close>.
\<close>

definition noncontained :: "operation \<Rightarrow> path \<Rightarrow> bool" where
  "noncontained func nextParallel =
     list_ex (\<lambda>(other, op). kind op = ParallelOp \<and> \<not> isAncestor nextParallel other)
       (walk func)"

text \<open>
  The condition of lines 100 to 105 for moving \<open>prevOp\<close> (at path \<open>prevOp\<close> in \<open>func\<close>) into
  \<open>nextParallel\<close>.
\<close>

definition canMove :: "operation \<Rightarrow> path \<Rightarrow> operation \<Rightarrow> bool" where
  "canMove func nextParallel prevOp =
     (isReadOnly prevOp \<and>
      list_all (\<lambda>v. list_all (\<lambda>(user, op). isAncestor nextParallel user) (getUsers func v))
        (results prevOp))"

text \<open>
  Lines 106 to 110: the clone of \<open>prevOp\<close> is put at the start of the first block of
  \<open>nextParallel\<close> and \<open>prevOp\<close> is replaced by it, that is erased from the parent block.
\<close>

definition relocate ::
  "operation \<Rightarrow> path \<Rightarrow> nat \<Rightarrow> nat \<Rightarrow> block \<Rightarrow> nat \<Rightarrow> nat \<Rightarrow> error + operation" where
  "relocate func owner r b parent prev next =
     (case frontBlock (parent ! next) of
        Inl e \<Rightarrow> Inl e
      | Inr front \<Rightarrow>
          let replacement = clone (parent ! prev);
              nextParallel' = setBlock 0 0 (replacement # front) (parent ! next);
              parent' = eraseAt prev (parent[next := nextParallel'])
          in Inr (updOp owner (setBlock r b parent') func))"

text \<open>
  Lines 120 to 126, the merge: a barrier is created at the end of the first block of
  \<open>prevParallel\<close> and replaces the terminator there, the first block of \<open>nextParallel\<close> is
  merged behind it, and \<open>nextParallel\<close> is erased.
\<close>

definition mergeParallel ::
  "operation \<Rightarrow> path \<Rightarrow> nat \<Rightarrow> nat \<Rightarrow> block \<Rightarrow> nat \<Rightarrow> nat \<Rightarrow> error + bool \<times> operation" where
  "mergeParallel func owner r b parent prev next =
     (case frontBlock (parent ! prev) of
        Inl e \<Rightarrow> Inl e
      | Inr prevFront \<Rightarrow>
     (case getTerminator prevFront of
        Inl e \<Rightarrow> Inl e
      | Inr terminator \<Rightarrow>
     if results terminator \<noteq> [] then Inl ResultCountMismatch
     else
     (case frontBlock (parent ! next) of
        Inl e \<Rightarrow> Inl e
      | Inr nextFront \<Rightarrow>
          let withBarrier = eraseAt (length prevFront - 1) (prevFront @ [barrierOp]);
              merged = withBarrier @ nextFront;
              parent' = parent[prev := setBlock 0 0 merged (parent ! prev)];
              func' = updOp owner (setBlock r b parent') func
          in if \<not> useEmpty func' (parent ! next) then Inl OpHasUses
             else Inr (True, updOp owner (setBlock r b (eraseAt next parent')) func))))"

text \<open>
  The backward scan of lines 95 to 118. \<open>prev\<close> and \<open>next\<close> are the indices of \<open>prevOp\<close> and
  \<open>nextParallel\<close> in their block; erasing \<open>prevOp\<close> shifts both down by one.
\<close>

function scan ::
  "operation \<Rightarrow> path \<Rightarrow> nat \<Rightarrow> nat \<Rightarrow> nat \<Rightarrow> nat \<Rightarrow> bool \<Rightarrow> error + bool \<times> operation" where
  "scan func owner r b prev next changed =
     (case getBlock func owner r b of
        None \<Rightarrow> Inl InvalidPosition
      | Some parent \<Rightarrow>
          if \<not> (prev < next \<and> next < length parent) then Inl InvalidPosition
          else if kind (parent ! prev) = ParallelOp
          then mergeParallel func owner r b parent prev next
          else if canMove func (owner @ [(r, b, next)]) (parent ! prev)
          then (case relocate func owner r b parent prev next of
                  Inl e \<Rightarrow> Inl e
                | Inr func' \<Rightarrow>
                    if prev = 0 then Inr (True, func')
                    else scan func' owner r b (prev - 1) (next - 1) True)
          else Inr (changed, func))"
  by pat_completeness auto
termination
  by (relation "measure (\<lambda>(func, owner, r, b, prev, next, changed). prev)") auto

text \<open>
  \<^verbatim>\<open>CombineParallel::matchAndRewrite\<close>. The pattern is tried on parallel operations only;
  \<open>func\<close> is the function that encloses \<open>nextParallel\<close>, which sits at index \<open>next\<close> of block
  \<open>b\<close> of region \<open>r\<close> of the operation at \<open>owner\<close>. The result pairs the
  \<^verbatim>\<open>LogicalResult\<close> (\<open>True\<close> for success) with the function as the rewrite leaves it.
\<close>

definition combineParallel ::
  "operation \<Rightarrow> path \<Rightarrow> nat \<Rightarrow> nat \<Rightarrow> nat \<Rightarrow> error + bool \<times> operation" where
  "combineParallel func owner r b next =
     (case getBlock func owner r b of
        None \<Rightarrow> Inl InvalidPosition
      | Some parent \<Rightarrow>
          if \<not> next < length parent then Inl InvalidPosition
          else if kind (parent ! next) \<noteq> ParallelOp then Inr (False, func)
          else if next = 0 then Inr (False, func)
          else if \<not> noncontained func (owner @ [(r, b, next)]) then Inr (False, func)
          else scan func owner r b (next - 1) next False)"

section \<open>ParallelForInterchange and ParallelIfInterchange\<close>

text \<open>
  \<^verbatim>\<open>ParallelForInterchange::matchAndRewrite\<close>, lines 133 to 156. \<open>prevFor\<close> is the operation at
  \<open>owner\<close>. After \<open>nextParallel\<close> is moved out, its first block is split at its start, so all
  its operations (\<open>contents\<close>) are merged in front of the first operation of the body of
  \<open>prevFor\<close>; a barrier is created before the terminator of that body; the terminator
  \<open>yield\<close> of \<open>nextParallel\<close> is cloned into its now empty first block and erased from the
  body; \<open>prevFor\<close> is moved before the clone.
\<close>

definition parallelForInterchange ::
  "operation \<Rightarrow> path \<Rightarrow> nat \<Rightarrow> nat \<Rightarrow> nat \<Rightarrow> error + bool \<times> operation" where
  "parallelForInterchange func owner r b next =
     (case getBlock func owner r b of
        None \<Rightarrow> Inl InvalidPosition
      | Some parent \<Rightarrow>
     if \<not> next < length parent then Inl InvalidPosition
     else if kind (parent ! next) \<noteq> ParallelOp then Inr (False, func)
     else if length parent \<noteq> 2 then Inr (False, func)
     else
     (case getOp func owner of
        None \<Rightarrow> Inl InvalidPosition
      | Some prevFor \<Rightarrow>
     if kind prevFor \<noteq> ForOp then Inr (False, func)
     else if results prevFor \<noteq> [] then Inr (False, func)
     else if owner = [] then Inl NoParentBlock
     else
     (case frontBlock (parent ! next) of
        Inl e \<Rightarrow> Inl e
      | Inr contents \<Rightarrow>
     (case getTerminator contents of
        Inl e \<Rightarrow> Inl e
      | Inr yield \<Rightarrow>
     (case frontBlock (setBlock r b (eraseAt next parent) prevFor) of
        Inl e \<Rightarrow> Inl e
      | Inr body \<Rightarrow>
     if body = [] then Inl EmptyBlock
     else
       let merged = contents @ body;
           withBarrier = butlast merged @ [barrierOp, last merged];
           newYield = clone yield;
           body' = eraseAt (length contents - 1) withBarrier;
           prevFor' = setBlock 0 0 body' (setBlock r b (eraseAt next parent) prevFor);
           nextParallel' = setBlock 0 0 [prevFor', newYield] (parent ! next)
       in if \<not> useEmpty func yield then Inl OpHasUses
          else Inr (True, updOp owner (\<lambda>_. nextParallel') func))))))"

text \<open>
  \<^verbatim>\<open>ParallelIfInterchange::matchAndRewrite\<close>, lines 162 to 183: the same steps for an
  \<^verbatim>\<open>scf.if\<close>, without the barrier. \<^verbatim>\<open>prevIf.getBody()\<close> is the first block of the first
  region of the conditional, its then-block.
\<close>

definition parallelIfInterchange ::
  "operation \<Rightarrow> path \<Rightarrow> nat \<Rightarrow> nat \<Rightarrow> nat \<Rightarrow> error + bool \<times> operation" where
  "parallelIfInterchange func owner r b next =
     (case getBlock func owner r b of
        None \<Rightarrow> Inl InvalidPosition
      | Some parent \<Rightarrow>
     if \<not> next < length parent then Inl InvalidPosition
     else if kind (parent ! next) \<noteq> ParallelOp then Inr (False, func)
     else if length parent \<noteq> 2 then Inr (False, func)
     else
     (case getOp func owner of
        None \<Rightarrow> Inl InvalidPosition
      | Some prevIf \<Rightarrow>
     if kind prevIf \<noteq> IfOp then Inr (False, func)
     else if results prevIf \<noteq> [] then Inr (False, func)
     else if owner = [] then Inl NoParentBlock
     else
     (case frontBlock (parent ! next) of
        Inl e \<Rightarrow> Inl e
      | Inr contents \<Rightarrow>
     (case getTerminator contents of
        Inl e \<Rightarrow> Inl e
      | Inr yield \<Rightarrow>
     (case frontBlock (setBlock r b (eraseAt next parent) prevIf) of
        Inl e \<Rightarrow> Inl e
      | Inr body \<Rightarrow>
     if body = [] then Inl EmptyBlock
     else
       let merged = contents @ body;
           newYield = clone yield;
           body' = eraseAt (length contents - 1) merged;
           prevIf' = setBlock 0 0 body' (setBlock r b (eraseAt next parent) prevIf);
           nextParallel' = setBlock 0 0 [prevIf', newYield] (parent ! next)
       in if \<not> useEmpty func yield then Inl OpHasUses
          else Inr (True, updOp owner (\<lambda>_. nextParallel') func))))))"

section \<open>The pass\<close>

text \<open>
  Modelled from the spec: the pattern-rewrite driver, \<^verbatim>\<open>applyPatternsAndFoldGreedily\<close> of the
  IR library, which the pass calls and which is not among the sources. The spec describes it
  as an engine that tries the three rules, in the order CombineParallel,
  ParallelForInterchange, ParallelIfInterchange, on the operations of the function until no
  rule matches or the iteration cap is reached, and that keeps what was rewritten when the
  cap is hit. Here one iteration looks for the first parallel operation, in walk order, on
  which a rule succeeds, and applies that rule. The worklist holds the operations the rules
  are registered for, the parallel operations inside the function.
\<close>

definition parallelOps :: "operation \<Rightarrow> path list" where
  "parallelOps func =
     map fst (filter (\<lambda>(p, op). kind op = ParallelOp \<and> p \<noteq> []) (walk func))"

text \<open>
  Modelled from the spec: the fixed order in which the driver tries the rules on one
  operation (the pattern applicator of the IR library is not among the sources). The first
  rule that succeeds gives the new function; \<open>None\<close> when all three fail.
\<close>

definition tryPatterns :: "operation \<Rightarrow> path \<Rightarrow> error + operation option" where
  "tryPatterns func p =
     (case last p of (r, b, i) \<Rightarrow>
      (case combineParallel func (butlast p) r b i of
         Inl e \<Rightarrow> Inl e
       | Inr (True, func') \<Rightarrow> Inr (Some func')
       | Inr (False, _) \<Rightarrow>
      (case parallelForInterchange func (butlast p) r b i of
         Inl e \<Rightarrow> Inl e
       | Inr (True, func') \<Rightarrow> Inr (Some func')
       | Inr (False, _) \<Rightarrow>
      (case parallelIfInterchange func (butlast p) r b i of
         Inl e \<Rightarrow> Inl e
       | Inr (True, func') \<Rightarrow> Inr (Some func')
       | Inr (False, _) \<Rightarrow> Inr None))))"

text \<open>
  Modelled from the spec: the driver's pass over the operations of its worklist (not among
  the sources), up to the first operation on which a rule succeeds.
\<close>

fun firstMatch :: "operation \<Rightarrow> path list \<Rightarrow> error + operation option" where
  "firstMatch func [] = Inr None"
| "firstMatch func (p # ps) =
     (case tryPatterns func p of
        Inl e \<Rightarrow> Inl e
      | Inr (Some func') \<Rightarrow> Inr (Some func')
      | Inr None \<Rightarrow> firstMatch func ps)"

text \<open>
  Modelled from the spec: the driver's loop (not among the sources), which repeats until no
  rule matches or the iteration cap is reached. It reports whether it converged: \<open>True\<close> when
  it stopped because no rule matched, \<open>False\<close> when the iterations ran out; the function is
  returned in both cases.
\<close>

fun driver :: "nat \<Rightarrow> operation \<Rightarrow> error + bool \<times> operation" where
  "driver 0 func = Inr (False, func)"
| "driver (Suc n) func =
     (case firstMatch func (parallelOps func) of
        Inl e \<Rightarrow> Inl e
      | Inr None \<Rightarrow> Inr (True, func)
      | Inr (Some func') \<Rightarrow> driver n func')"

text \<open>
  \<^verbatim>\<open>OpenMPOpt::runOnOperation\<close>: the three patterns, \<^verbatim>\<open>config.maxIterations = 47\<close>, and the
  result of the driver (whether it converged) is discarded.
\<close>

definition maxIterations :: nat where
  "maxIterations = 47"

definition runOnOperation :: "operation \<Rightarrow> error + operation" where
  "runOnOperation func =
     (case driver maxIterations func of Inl e \<Rightarrow> Inl e | Inr (converged, func') \<Rightarrow> Inr func')"

section \<open>Notions of the specification\<close>

text \<open>
  The read-only operation of the spec's glossary: the operation and everything nested in its
  regions performs no write, no allocation and no free, that is, declares only read effects
  or no effect at all.
\<close>

fun performsOnlyReads :: "operation \<Rightarrow> bool" where
  "performsOnlyReads (Operation k os rs regs rec eff) =
     (list_all (\<lambda>e. e \<noteq> Write \<and> e \<noteq> Allocate \<and> e \<noteq> Free)
        (case eff of None \<Rightarrow> [] | Some effects \<Rightarrow> effects) \<and>
      list_all (\<lambda>region. list_all (\<lambda>block. list_all performsOnlyReads block) region) regs)"

text \<open>
  A fully effect-annotated operation: it and everything nested in it implements the
  memory-effect interface, and whatever has nested operations carries the recursive trait.
\<close>

fun annotated :: "operation \<Rightarrow> bool" where
  "annotated (Operation k os rs regs rec eff) =
     (eff \<noteq> None \<and> (rec \<or> concat (concat regs) = []) \<and>
      list_all (\<lambda>region. list_all (\<lambda>block. list_all annotated block) region) regs)"

text \<open>
  The use-def invariant of the spec's data model, that every use is reachable from its
  definition: an operand that some operation of the function defines is defined by an
  operation that stands earlier in the block of the user or earlier in the block of one of
  the user's ancestors. \<open>precedes q p\<close> says so of the paths of definition and user. Operands
  that no operation defines are arguments of the function or of a block.
\<close>

fun precedes :: "path \<Rightarrow> path \<Rightarrow> bool" where
  "precedes [] p = False"
| "precedes (s # q) [] = False"
| "precedes ((r, b, i) # q) ((r', b', j) # p) =
     (r = r' \<and> b = b' \<and> (if q = [] then i < j else i = j \<and> precedes q p))"

definition getDefiningOps :: "operation \<Rightarrow> nat \<Rightarrow> path list" where
  "getDefiningOps func v = map fst (filter (\<lambda>(p, op). v \<in> set (results op)) (walk func))"

definition usesReachable :: "operation \<Rightarrow> bool" where
  "usesReachable func =
     list_all (\<lambda>(user, op).
        list_all (\<lambda>v. getDefiningOps func v = [] \<or>
                       list_ex (\<lambda>def. precedes def user) (getDefiningOps func v))
          (operands op))
       (walk func)"

text \<open>The paths of the parallel operations in an operation, itself included.\<close>

definition parPaths :: "operation \<Rightarrow> path list" where
  "parPaths op = map fst (filter (\<lambda>(p, x). kind x = ParallelOp) (walk op))"

section \<open>Example functions\<close>

definition terminatorOp :: operation where
  "terminatorOp = Operation (OtherOp ''omp.terminator'') [] [] [] False None"

definition yieldOp :: operation where
  "yieldOp = Operation (OtherOp ''scf.yield'') [] [] [] False None"

definition returnOp :: operation where
  "returnOp = Operation (OtherOp ''func.return'') [] [] [] False None"

definition loadOp :: operation where
  "loadOp = Operation (OtherOp ''memref.load'') [0] [1] [] False (Some [Read])"

definition storeOp :: operation where
  "storeOp = Operation (OtherOp ''memref.store'') [0] [] [] False (Some [Write])"

definition useOp :: operation where
  "useOp = Operation (OtherOp ''memref.store'') [1, 0] [] [] False (Some [Write])"

definition opaqueOp :: operation where
  "opaqueOp = Operation (OtherOp ''llvm.call'') [] [] [] False None"

definition parallel :: "nat list \<Rightarrow> block \<Rightarrow> operation" where
  "parallel args body = Operation ParallelOp args [] [[body]] False None"

definition forLoop :: "block \<Rightarrow> operation" where
  "forLoop body = Operation ForOp [2, 3, 4] [] [[body]] True None"

definition ifThenElse :: "block \<Rightarrow> block \<Rightarrow> operation" where
  "ifThenElse thenBlock elseBlock = Operation IfOp [5] [] [[thenBlock], [elseBlock]] True None"

definition funcOp :: "block \<Rightarrow> operation" where
  "funcOp body = Operation FuncOp [] [] [[body]] False None"

text \<open>
  A parallel region whose operand is the result of the load in front of it, with a second
  parallel region behind.
\<close>

definition selfUse :: operation where
  "selfUse =
     funcOp [loadOp, parallel [1] [useOp, terminatorOp], parallel [] [terminatorOp], returnOp]"

definition selfUseStore :: operation where
  "selfUseStore =
     funcOp [loadOp, parallel [1] [useOp, terminatorOp], storeOp, parallel [] [terminatorOp],
       returnOp]"

text \<open>
  The same parallel region and load, with a store in front of the load.
\<close>

definition selfUseAfterStore :: operation where
  "selfUseAfterStore =
     funcOp [storeOp, loadOp, parallel [1] [useOp, terminatorOp], parallel [] [terminatorOp],
       returnOp]"

text \<open>
  A parallel region in the else-block of a conditional whose then-block holds a store.
\<close>

definition elseParallel :: operation where
  "elseParallel =
     funcOp [ifThenElse [storeOp, yieldOp] [parallel [] [loadOp, terminatorOp], yieldOp],
       returnOp]"

text \<open>
  A parallel region at the bottom of \<open>n\<close> nested loops, after \<open>k\<close> applications of
  ParallelForInterchange: \<open>n - k\<close> loops are still around the parallel region and \<open>k\<close> loops,
  each ending in a barrier, are inside it.
\<close>

primrec innerBody :: "nat \<Rightarrow> block" where
  "innerBody 0 = [storeOp]"
| "innerBody (Suc k) = [forLoop (innerBody k @ [barrierOp, yieldOp])]"

primrec outerLoops :: "nat \<Rightarrow> operation \<Rightarrow> operation" where
  "outerLoops 0 x = x"
| "outerLoops (Suc m) x = forLoop [outerLoops m x, yieldOp]"

definition loopNest :: "nat \<Rightarrow> nat \<Rightarrow> operation" where
  "loopNest n k =
     funcOp [outerLoops (n - k) (parallel [] (innerBody k @ [terminatorOp])), returnOp]"

section \<open>Basic facts about the tree operations\<close>

declare scan.simps [simp del]

lemma getOp_updOp:
  "getOp func p = Some op \<Longrightarrow> getOp (updOp p f func) p = Some (f op)"
proof (induction p arbitrary: func)
  case Nil
  then show ?case by simp
next
  case (Cons s p)
  obtain r b i where s: "s = (r, b, i)" by (cases s)
  show ?case using Cons
    by (cases func) (auto simp: s split: if_splits)
qed

lemma regions_setBlock:
  "regions (setBlock r b blk op) = (regions op)[r := (regions op ! r)[b := blk]]"
  by (cases op) simp

lemma kind_setBlock [simp]: "kind (setBlock r b blk op) = kind op"
  and operands_setBlock [simp]: "operands (setBlock r b blk op) = operands op"
  and results_setBlock [simp]: "results (setBlock r b blk op) = results op"
  by (cases op; simp)+

lemma getBlock_updOp_setBlock:
  "getBlock func owner r b = Some parent \<Longrightarrow>
   getBlock (updOp owner (setBlock r b blk) func) owner r b = Some blk"
  by (auto simp: getBlock_def getOp_updOp regions_setBlock split: option.splits if_splits)

lemma frontBlock_setBlock:
  "frontBlock op = Inr old \<Longrightarrow> frontBlock (setBlock 0 0 blk op) = Inr blk"
  by (cases op) (auto simp: frontBlock_def split: list.splits)

lemma eraseAt_last:
  "xs \<noteq> [] \<Longrightarrow> eraseAt (length xs - Suc 0) (xs @ ys) = butlast xs @ ys"
  by (cases xs rule: rev_cases) (simp_all add: eraseAt_def)

lemma walk_Nil: "([], x) \<in> set (walk root) \<longleftrightarrow> x = root"
  by (cases root) auto

lemma walk_Cons:
  "((r, b, i) # q, x) \<in> set (walk root) \<longleftrightarrow>
     r < length (regions root) \<and> b < length (regions root ! r) \<and>
     i < length (regions root ! r ! b) \<and> (q, x) \<in> set (walk (regions root ! r ! b ! i))"
proof (cases root)
  case (Operation k os rs regs rec eff)
  show ?thesis
  proof
    assume "((r, b, i) # q, x) \<in> set (walk root)"
    then show "r < length (regions root) \<and> b < length (regions root ! r) \<and>
      i < length (regions root ! r ! b) \<and> (q, x) \<in> set (walk (regions root ! r ! b ! i))"
      by (auto simp: Operation)
  next
    assume a: "r < length (regions root) \<and> b < length (regions root ! r) \<and>
      i < length (regions root ! r ! b) \<and> (q, x) \<in> set (walk (regions root ! r ! b ! i))"
    then have "((r, b, i) # q, x) \<in>
        (\<lambda>(p, x). ((r, b, i) # p, x)) ` set (walk (regs ! r ! b ! i))"
      by (force simp: Operation)
    with a show "((r, b, i) # q, x) \<in> set (walk root)"
      apply (simp add: Operation)
      apply (rule bexI[where x=r])
       apply (rule bexI[where x=b])
        apply (rule bexI[where x=i])
         apply simp_all
      done
  qed
qed

lemma walk_iff: "(q, x) \<in> set (walk root) \<longleftrightarrow> getOp root q = Some x"
proof (induction q arbitrary: root)
  case Nil
  show ?case by (auto simp: walk_Nil)
next
  case (Cons s q)
  obtain r b i where s: "s = (r, b, i)" by (cases s)
  show ?case using Cons.IH
    by (auto simp: s walk_Cons)
qed

lemma getOp_append:
  "getOp func (p @ q) = (case getOp func p of None \<Rightarrow> None | Some op \<Rightarrow> getOp op q)"
  by (induction func p rule: getOp.induct) auto

lemma getOp_in_block:
  "getBlock func owner r b = Some parent \<Longrightarrow> i < length parent \<Longrightarrow>
   getOp func (owner @ [(r, b, i)]) = Some (parent ! i)"
  by (auto simp: getOp_append getBlock_def split: option.splits if_splits)

lemma isAncestor_append [simp]: "isAncestor (p @ q) (p @ q') = isAncestor q q'"
  by (induction p) auto

lemma isAncestor_iff: "isAncestor p q \<longleftrightarrow> (\<exists>s. q = p @ s)"
  by (induction p q rule: isAncestor.induct) auto

lemma noncontained_iff:
  "noncontained func nextParallel \<longleftrightarrow>
   (\<exists>other op. getOp func other = Some op \<and> kind op = ParallelOp \<and>
      \<not> isAncestor nextParallel other)"
  by (auto simp: noncontained_def list_ex_iff walk_iff[symmetric])

section \<open>CombineParallel: the merge step\<close>

text \<open>
  Claim C1. When the scan of CombineParallel stands at a parallel operation \<open>Q\<close> (index
  \<open>prev\<close>) before the matched parallel operation \<open>P\<close> (index \<open>next\<close>), the rewrite succeeds: the
  terminator of the first block of \<open>Q\<close> is replaced by a barrier, the operations of the first
  block of \<open>P\<close> are appended behind it, and \<open>P\<close> is erased from the parent block. The body of
  the remaining parallel operation is the body of \<open>Q\<close> without its terminator, the barrier,
  then the body of \<open>P\<close>. When \<open>Q\<close> is the immediate predecessor of \<open>P\<close>, this is the result of
  the whole rule.
\<close>

theorem combineParallel_merge:
  assumes blk: "getBlock func owner r b = Some parent"
    and pos: "prev < next" "next < length parent"
    and q: "kind (parent ! prev) = ParallelOp"
    and qBody: "frontBlock (parent ! prev) = Inr qBody" "qBody \<noteq> []" "results (last qBody) = []"
    and pBody: "frontBlock (parent ! next) = Inr pBody"
    and p: "kind (parent ! next) = ParallelOp" "results (parent ! next) = []"
  shows "let merged = setBlock 0 0 (butlast qBody @ [barrierOp] @ pBody) (parent ! prev);
             func' = updOp owner (setBlock r b (eraseAt next (parent[prev := merged]))) func
         in scan func owner r b prev next changed = Inr (True, func') \<and>
            (Suc prev = next \<longrightarrow> combineParallel func owner r b next = Inr (True, func')) \<and>
            getBlock func' owner r b = Some (eraseAt next (parent[prev := merged])) \<and>
            kind merged = ParallelOp \<and> operands merged = operands (parent ! prev) \<and>
            frontBlock merged = Inr (butlast qBody @ [barrierOp] @ pBody)"
proof -
  have s: "scan func owner r b prev next c =
      Inr (True, updOp owner (setBlock r b (eraseAt next
         (parent[prev := setBlock 0 0 (butlast qBody @ [barrierOp] @ pBody) (parent ! prev)]))) func)"
    for c
    using assms
    by (simp add: scan.simps mergeParallel_def getTerminator_def useEmpty_def Let_def
        eraseAt_last)
  have "getOp func (owner @ [(r, b, prev)]) = Some (parent ! prev)"
    using blk pos by (simp add: getOp_in_block)
  moreover have "\<not> isAncestor (owner @ [(r, b, next)]) (owner @ [(r, b, prev)])"
    using pos by simp
  ultimately have n: "noncontained func (owner @ [(r, b, next)])"
    using q unfolding noncontained_iff by blast
  have c: "Suc prev = next \<Longrightarrow> combineParallel func owner r b next =
     scan func owner r b prev next False"
    using blk pos p n by (auto simp: combineParallel_def)
  show ?thesis
    using blk q qBody
    by (simp add: Let_def s c getBlock_updOp_setBlock frontBlock_setBlock)
qed



theorem combineParallel_merge_witness:
  "combineParallel
     (funcOp [parallel [] [storeOp, terminatorOp], parallel [] [useOp, terminatorOp], returnOp])
     [] 0 0 1 =
   Inr (True, funcOp [parallel [] [storeOp, barrierOp, useOp, terminatorOp], returnOp])"
  using combineParallel_merge [of
      "funcOp [parallel [] [storeOp, terminatorOp], parallel [] [useOp, terminatorOp], returnOp]"
      "[]" 0 0
      "[parallel [] [storeOp, terminatorOp], parallel [] [useOp, terminatorOp], returnOp]"
      0 1 "[storeOp, terminatorOp]" "[useOp, terminatorOp]" False]
  by (simp add: funcOp_def parallel_def getBlock_def frontBlock_def terminatorOp_def
      eraseAt_def Let_def)

section \<open>The interchange rules\<close>

lemma frontBlock_setBlock_any:
  "getBlock func owner 0 0 = Some old \<Longrightarrow> getOp func owner = Some F \<Longrightarrow>
   frontBlock (setBlock 0 0 blk F) = Inr blk"
  by (cases F; cases "regions F"; cases "hd (regions F)")
     (auto simp: getBlock_def frontBlock_def split: if_splits)

lemma setBlock_setBlock [simp]:
  "setBlock r b blk (setBlock r b blk' op) = setBlock r b blk op"
proof (cases op)
  case (Operation k os rs regs rec eff)
  show ?thesis
  proof (cases "r < length regs")
    case True
    then show ?thesis by (simp add: Operation)
  next
    case False
    then show ?thesis by (simp add: Operation list_update_beyond)
  qed
qed

lemma parallelForInterchange_fires:
  assumes "getOp func owner = Some F" "owner \<noteq> []" "kind F = ForOp" "results F = []"
    and "getBlock func owner 0 0 = Some [P, t]" "kind P = ParallelOp"
    and "frontBlock P = Inr body" "body \<noteq> []" "results (last body) = []"
  shows "parallelForInterchange func owner 0 0 0 =
     Inr (True, updOp owner
       (\<lambda>_. setBlock 0 0 [setBlock 0 0 (butlast body @ [barrierOp, t]) F, clone (last body)] P)
       func)"
  using assms
  by (simp add: parallelForInterchange_def getTerminator_def useEmpty_def Let_def
      frontBlock_setBlock_any eraseAt_last) (simp add: eraseAt_def butlast_conv_take)

lemma parallelIfInterchange_then:
  assumes "getOp func owner = Some I" "owner \<noteq> []" "kind I = IfOp" "results I = []"
    and "getBlock func owner 0 0 = Some [P, t]" "kind P = ParallelOp"
    and "frontBlock P = Inr body" "body \<noteq> []" "results (last body) = []"
  shows "parallelIfInterchange func owner 0 0 0 =
     Inr (True, updOp owner
       (\<lambda>_. setBlock 0 0 [setBlock 0 0 (butlast body @ [t]) I, clone (last body)] P)
       func)"
  using assms
  by (simp add: parallelIfInterchange_def getTerminator_def useEmpty_def Let_def
      frontBlock_setBlock_any eraseAt_last) (simp add: eraseAt_def butlast_conv_take)

text \<open>
  Claim C2. Let the parallel operation \<open>P\<close> be alone with the terminator \<open>t\<close> in the body of a
  loop \<open>F\<close>. If \<open>F\<close> has no results, ParallelForInterchange succeeds: at the place of \<open>F\<close> now
  stands \<open>P\<close>, whose first block holds \<open>F\<close> followed by a clone of the terminator of \<open>P\<close>, and
  the body of \<open>F\<close> is the body of \<open>P\<close> without its terminator, then a barrier, then \<open>t\<close>. If
  \<open>F\<close> has a result, the rule fails and the function is unchanged.
\<close>

theorem parallelForInterchange_rewrite:
  assumes "getOp func owner = Some F" "owner \<noteq> []" "kind F = ForOp"
    and "getBlock func owner 0 0 = Some [P, t]" "kind P = ParallelOp"
    and "frontBlock P = Inr body" "body \<noteq> []" "results (last body) = []"
  shows "(results F = [] \<longrightarrow>
           (let F' = setBlock 0 0 (butlast body @ [barrierOp, t]) F;
                P' = setBlock 0 0 [F', clone (last body)] P;
                func' = updOp owner (\<lambda>_. P') func
            in parallelForInterchange func owner 0 0 0 = Inr (True, func') \<and>
               getOp func' owner = Some P' \<and> kind P' = ParallelOp \<and>
               frontBlock P' = Inr [F', clone (last body)] \<and> kind F' = ForOp \<and>
               frontBlock F' = Inr (butlast body @ [barrierOp, t]))) \<and>
         (results F \<noteq> [] \<longrightarrow> parallelForInterchange func owner 0 0 0 = Inr (False, func))"
proof (intro conjI impI)
  assume r: "results F = []"
  show "let F' = setBlock 0 0 (butlast body @ [barrierOp, t]) F;
            P' = setBlock 0 0 [F', clone (last body)] P;
            func' = updOp owner (\<lambda>_. P') func
        in parallelForInterchange func owner 0 0 0 = Inr (True, func') \<and>
           getOp func' owner = Some P' \<and> kind P' = ParallelOp \<and>
           frontBlock P' = Inr [F', clone (last body)] \<and> kind F' = ForOp \<and>
           frontBlock F' = Inr (butlast body @ [barrierOp, t])"
    using assms r
    by (simp add: Let_def parallelForInterchange_fires getOp_updOp frontBlock_setBlock
        frontBlock_setBlock_any)
next
  assume "results F \<noteq> []"
  then show "parallelForInterchange func owner 0 0 0 = Inr (False, func)"
    using assms by (simp add: parallelForInterchange_def)
qed

theorem parallelForInterchange_rewrite_witness:
  "parallelForInterchange
     (funcOp [forLoop [parallel [] [useOp, storeOp, terminatorOp], yieldOp], returnOp])
     [(0, 0, 0)] 0 0 0 =
   Inr (True, funcOp [parallel [] [forLoop [useOp, storeOp, barrierOp, yieldOp], terminatorOp],
     returnOp])"
  using parallelForInterchange_rewrite [of
      "funcOp [forLoop [parallel [] [useOp, storeOp, terminatorOp], yieldOp], returnOp]"
      "[(0, 0, 0)]" "forLoop [parallel [] [useOp, storeOp, terminatorOp], yieldOp]"
      "parallel [] [useOp, storeOp, terminatorOp]" yieldOp "[useOp, storeOp, terminatorOp]"]
  by (simp add: funcOp_def forLoop_def parallel_def getBlock_def frontBlock_def
      terminatorOp_def clone_def Let_def)

text \<open>
  Claim C3. ParallelIfInterchange also fires on a parallel operation that is alone with the
  terminator in the else-block of a conditional without results. It then splices the body of
  the parallel operation into the then-block (\<^verbatim>\<open>prevIf.getBody()\<close> is the then-block whatever
  block the parallel operation was in): in \<open>elseParallel\<close> the load that ran when the condition
  was false ends up in front of the store of the then-block, and the else-block is left with
  its terminator. No barrier is inserted. For the then-block the rewrite is the one the claim
  describes, see \<open>parallelIfInterchange_then\<close>.
\<close>

theorem parallelIfInterchange_else_branch:
  "parallelIfInterchange elseParallel [(0, 0, 0)] 1 0 0 =
   Inr (True, funcOp [parallel []
        [ifThenElse [loadOp, storeOp, yieldOp] [yieldOp], terminatorOp], returnOp])"
  by (simp add: elseParallel_def parallelIfInterchange_def funcOp_def ifThenElse_def parallel_def getBlock_def
      frontBlock_def getTerminator_def useEmpty_def eraseAt_def clone_def terminatorOp_def
      Let_def)


section \<open>A failing rule leaves the function as it was\<close>

lemma mergeParallel_succeeds:
  "mergeParallel func owner r b parent prev next = Inr (ok, func') \<Longrightarrow> ok"
  by (auto simp: mergeParallel_def Let_def split: sum.splits if_splits)

lemma scan_failure:
  "scan func owner r b prev next changed = Inr (False, func') \<Longrightarrow> \<not> changed \<and> func' = func"
proof (induction func owner r b prev "next" changed rule: scan.induct)
  case (1 func owner r b prev "next" changed)
  show ?case
  proof (cases "getBlock func owner r b")
    case None
    with "1.prems" show ?thesis by (simp add: scan.simps)
  next
    case (Some parent)
    show ?thesis
    proof (cases "prev < next \<and> next < length parent")
      case False
      with "1.prems" Some show ?thesis by (simp add: scan.simps)
    next
      case pos: True
      show ?thesis
      proof (cases "kind (parent ! prev) = ParallelOp")
        case True
        with "1.prems" Some pos show ?thesis
          by (auto simp: scan.simps dest: mergeParallel_succeeds)
      next
        case notPar: False
        show ?thesis
        proof (cases "canMove func (owner @ [(r, b, next)]) (parent ! prev)")
          case False
          with "1.prems" Some pos notPar show ?thesis by (simp add: scan.simps)
        next
          case True
          show ?thesis
          proof (cases "relocate func owner r b parent prev next")
            case (Inl e)
            with "1.prems" Some pos notPar True show ?thesis by (simp add: scan.simps)
          next
            case (Inr f)
            show ?thesis
            proof (cases "prev = 0")
              case True
              with "1.prems" Some pos notPar \<open>canMove _ _ _\<close> Inr show ?thesis
                by (simp add: scan.simps)
            next
              case False
              with "1.prems" Some pos notPar \<open>canMove _ _ _\<close> Inr
              have "scan f owner r b (prev - 1) (next - 1) True = Inr (False, func')"
                by (simp add: scan.simps)
              with "1.IH"[OF Some _ notPar \<open>canMove _ _ _\<close> Inr False] pos
              show ?thesis by simp
            qed
          qed
        qed
      qed
    qed
  qed
qed

lemma scan_stops:
  assumes "getBlock func owner r b = Some parent" "prev < next" "next < length parent"
    and "kind (parent ! prev) \<noteq> ParallelOp"
    and "\<not> canMove func (owner @ [(r, b, next)]) (parent ! prev)"
  shows "scan func owner r b prev next changed = Inr (changed, func)"
  using assms by (simp add: scan.simps)

lemma combineParallel_failure:
  "combineParallel func owner r b next = Inr (False, func') \<Longrightarrow> func' = func"
  by (auto simp: combineParallel_def split: option.splits if_splits dest: scan_failure)

lemma parallelForInterchange_failure:
  "parallelForInterchange func owner r b next = Inr (False, func') \<Longrightarrow> func' = func"
  by (auto simp: parallelForInterchange_def Let_def split: option.splits if_splits sum.splits)

lemma parallelIfInterchange_failure:
  "parallelIfInterchange func owner r b next = Inr (False, func') \<Longrightarrow> func' = func"
  by (auto simp: parallelIfInterchange_def Let_def split: option.splits if_splits sum.splits)

text \<open>
  Whenever one of the three rules reports failure, the function it returns is the function it
  was given.
\<close>

lemma rules_failure_unchanged:
  "(combineParallel func owner r b next = Inr (False, func') \<longrightarrow> func' = func) \<and>
   (parallelForInterchange func owner r b next = Inr (False, func') \<longrightarrow> func' = func) \<and>
   (parallelIfInterchange func owner r b next = Inr (False, func') \<longrightarrow> func' = func)"
  using combineParallel_failure parallelForInterchange_failure parallelIfInterchange_failure
  by blast

text \<open>
  CombineParallel reports success exactly when its block has lost an operation, that is when
  the scan relocated at least one predecessor or reached the merge; the flag \<open>changed\<close> of a
  scan that the rule starts is set only by a relocation.
\<close>

lemma length_eraseAt: "n < length xs \<Longrightarrow> length (eraseAt n xs) = length xs - 1"
  by (simp add: eraseAt_def)

lemma mergeParallel_block:
  assumes "getBlock func owner r b = Some parent" "next < length parent"
    and "mergeParallel func owner r b parent prev next = Inr (ok, func')"
  shows "\<exists>parent'. getBlock func' owner r b = Some parent' \<and> length parent' < length parent"
  using assms
  by (auto simp: mergeParallel_def Let_def getBlock_updOp_setBlock length_eraseAt
      split: sum.splits if_splits)

lemma relocate_block:
  assumes "getBlock func owner r b = Some parent" "prev < length parent"
    and "relocate func owner r b parent prev next = Inr func'"
  shows "\<exists>parent'. getBlock func' owner r b = Some parent' \<and> length parent' < length parent"
  using assms
  by (auto simp: relocate_def Let_def getBlock_updOp_setBlock length_eraseAt
      split: sum.splits)

lemma scan_success_iff_relocated:
  "scan func owner r b prev next changed = Inr (ok, func') \<Longrightarrow>
   getBlock func owner r b = Some parent \<Longrightarrow>
   \<exists>parent'. getBlock func' owner r b = Some parent' \<and> length parent' \<le> length parent \<and>
     (ok \<longleftrightarrow> changed \<or> length parent' < length parent) \<and> (\<not> ok \<longrightarrow> func' = func)"
proof (induction func owner r b prev "next" changed arbitrary: parent rule: scan.induct)
  case (1 func owner r b prev "next" changed)
  note blk = \<open>getBlock func owner r b = Some parent\<close>
  note res = \<open>scan func owner r b prev next changed = Inr (ok, func')\<close>
  show ?case
  proof (cases "prev < next \<and> next < length parent")
    case False
    with res blk show ?thesis by (simp add: scan.simps)
  next
    case pos: True
    show ?thesis
    proof (cases "kind (parent ! prev) = ParallelOp")
      case True
      with res blk pos have m: "mergeParallel func owner r b parent prev next = Inr (ok, func')"
        by (simp add: scan.simps)
      then have "ok" by (rule mergeParallel_succeeds)
      moreover obtain parent' where "getBlock func' owner r b = Some parent'"
        "length parent' < length parent"
        using mergeParallel_block[OF blk _ m] pos by blast
      ultimately show ?thesis by auto
    next
      case notPar: False
      show ?thesis
      proof (cases "canMove func (owner @ [(r, b, next)]) (parent ! prev)")
        case False
        with res blk pos notPar show ?thesis by (auto simp: scan.simps)
      next
        case True
        show ?thesis
        proof (cases "relocate func owner r b parent prev next")
          case (Inl e)
          with res blk pos notPar True show ?thesis by (simp add: scan.simps)
        next
          case (Inr f)
          obtain p1 where p1: "getBlock f owner r b = Some p1" "length p1 < length parent"
            using relocate_block[OF blk _ Inr] pos by auto
          show ?thesis
          proof (cases "prev = 0")
            case True
            with res blk pos notPar \<open>canMove _ _ _\<close> Inr have "ok" "func' = f"
              by (simp_all add: scan.simps)
            with p1 show ?thesis by auto
          next
            case False
            with res blk pos notPar \<open>canMove _ _ _\<close> Inr
            have "scan f owner r b (prev - 1) (next - 1) True = Inr (ok, func')"
              by (simp add: scan.simps)
            from "1.IH"[OF blk _ notPar \<open>canMove _ _ _\<close> Inr False this p1(1)] pos
            obtain parent' where "getBlock func' owner r b = Some parent'"
              "length parent' \<le> length p1" "ok"
              by auto
            with p1 show ?thesis by auto
          qed
        qed
      qed
    qed
  qed
qed

lemma combineParallel_success_iff_relocated:
  assumes "combineParallel func owner r b next = Inr (ok, func')"
    and "getBlock func owner r b = Some parent"
  shows "\<exists>parent'. getBlock func' owner r b = Some parent' \<and>
     (ok \<longleftrightarrow> length parent' < length parent) \<and> (\<not> ok \<longrightarrow> func' = func)"
proof (cases "scan func owner r b (next - 1) next False = Inr (ok, func')")
  case True
  from scan_success_iff_relocated[OF True assms(2)] show ?thesis by auto
next
  case False
  with assms have "\<not> ok" "func' = func"
    by (auto simp: combineParallel_def split: if_splits)
  with assms(2) show ?thesis by auto
qed

text \<open>
  Claim C7. A rule application that reports success need not commit a legal transformation.
  In \<open>selfUseAfterStore\<close> the scan of CombineParallel relocates the load, whose result is an
  operand of the matched parallel operation, then stops at the store and reports success
  because something was relocated. Every use of the input was reachable from its definition;
  in the function the rule returns, the operand of the parallel operation is defined inside
  that operation.
\<close>

theorem combineParallel_commits_unreachable_use:
  "combineParallel selfUseAfterStore [] 0 0 2 =
     Inr (True, funcOp [storeOp, parallel [1] [loadOp, useOp, terminatorOp],
       parallel [] [terminatorOp], returnOp]) \<and>
   usesReachable selfUseAfterStore \<and>
   \<not> usesReachable (funcOp [storeOp, parallel [1] [loadOp, useOp, terminatorOp],
       parallel [] [terminatorOp], returnOp])"
  by code_simp


section \<open>The classifier and the scan\<close>

lemma isReadOnly_no_interface: "memoryEffects op = None \<Longrightarrow> \<not> isReadOnly op"
  by (cases op) simp

lemma isReadOnly_no_recursion:
  "\<not> hasRecursiveSideEffects op \<Longrightarrow>
   isReadOnly op =
     (case memoryEffects op of None \<Rightarrow> False | Some effects \<Rightarrow> list_all (\<lambda>it. it = Read) effects)"
  by (cases op) simp

text \<open>
  Claim C10. An operation that does not implement the memory-effect interface is never
  read-only, whatever its regions and effects; without the recursive trait the regions of an
  operation are not looked at; and the scan of CombineParallel stops at a predecessor that
  is not a parallel operation and lacks the interface, so that the rule fails when this is
  the immediate predecessor.
\<close>

theorem no_interface_blocks_hoisting:
  "(memoryEffects op = None \<longrightarrow> \<not> isReadOnly op) \<and>
   (\<not> hasRecursiveSideEffects op \<longrightarrow>
      isReadOnly op =
        (case memoryEffects op of None \<Rightarrow> False
         | Some effects \<Rightarrow> list_all (\<lambda>it. it = Read) effects)) \<and>
   (getBlock func owner r b = Some parent \<and> prev < next \<and> next < length parent \<and>
    kind (parent ! prev) \<noteq> ParallelOp \<and> memoryEffects (parent ! prev) = None \<longrightarrow>
      scan func owner r b prev next changed = Inr (changed, func)) \<and>
   (getBlock func owner r b = Some parent \<and> 0 < next \<and> next < length parent \<and>
    kind (parent ! (next - 1)) \<noteq> ParallelOp \<and> memoryEffects (parent ! (next - 1)) = None \<longrightarrow>
      combineParallel func owner r b next = Inr (False, func))"
proof (intro conjI impI)
  show "memoryEffects op = None \<Longrightarrow> \<not> isReadOnly op"
    by (rule isReadOnly_no_interface)
  show "\<not> hasRecursiveSideEffects op \<Longrightarrow> isReadOnly op =
        (case memoryEffects op of None \<Rightarrow> False
         | Some effects \<Rightarrow> list_all (\<lambda>it. it = Read) effects)"
    by (rule isReadOnly_no_recursion)
  show "getBlock func owner r b = Some parent \<and> prev < next \<and> next < length parent \<and>
    kind (parent ! prev) \<noteq> ParallelOp \<and> memoryEffects (parent ! prev) = None \<Longrightarrow>
      scan func owner r b prev next changed = Inr (changed, func)"
    by (simp add: scan_stops canMove_def isReadOnly_no_interface)
  show "getBlock func owner r b = Some parent \<and> 0 < next \<and> next < length parent \<and>
    kind (parent ! (next - 1)) \<noteq> ParallelOp \<and> memoryEffects (parent ! (next - 1)) = None \<Longrightarrow>
      combineParallel func owner r b next = Inr (False, func)"
    by (simp add: combineParallel_def scan_stops canMove_def isReadOnly_no_interface)
qed

theorem no_interface_blocks_hoisting_witness:
  "\<not> isReadOnly opaqueOp \<and>
   combineParallel
     (funcOp [parallel [] [terminatorOp], opaqueOp, parallel [] [terminatorOp], returnOp])
     [] 0 0 2 =
   Inr (False, funcOp [parallel [] [terminatorOp], opaqueOp, parallel [] [terminatorOp], returnOp])"
  using no_interface_blocks_hoisting [of opaqueOp
      "funcOp [parallel [] [terminatorOp], opaqueOp, parallel [] [terminatorOp], returnOp]"
      "[]" 0 0
      "[parallel [] [terminatorOp], opaqueOp, parallel [] [terminatorOp], returnOp]"
      1 2 False]
  by (simp add: funcOp_def getBlock_def opaqueOp_def)

text \<open>
  Claim C6. CombineParallel fails, and leaves the function unchanged, when the matched
  parallel operation is the first operation of its block, and when every parallel operation
  of the function is the matched one or nested in it.
\<close>

theorem combineParallel_guards:
  assumes "getBlock func owner r b = Some parent" "next < length parent"
    and "next = 0 \<or>
         (\<forall>other op. getOp func other = Some op \<and> kind op = ParallelOp \<longrightarrow>
            other = owner @ [(r, b, next)] \<or>
            (\<exists>s. s \<noteq> [] \<and> other = (owner @ [(r, b, next)]) @ s))"
  shows "combineParallel func owner r b next = Inr (False, func)"
proof -
  have "next \<noteq> 0 \<Longrightarrow> \<not> noncontained func (owner @ [(r, b, next)])"
    using assms(3) unfolding noncontained_iff isAncestor_iff
    by (metis append_Nil2)
  then show ?thesis
    using assms(1,2) by (auto simp: combineParallel_def)
qed

theorem combineParallel_guards_witness:
  "combineParallel (funcOp [storeOp, parallel [] [terminatorOp], returnOp]) [] 0 0 1 =
   Inr (False, funcOp [storeOp, parallel [] [terminatorOp], returnOp])"
proof -
  let ?f = "funcOp [storeOp, parallel [] [terminatorOp], returnOp]"
  have w: "walk ?f =
     [([], ?f), ([(0, 0, 0)], storeOp), ([(0, 0, 1)], parallel [] [terminatorOp]),
      ([(0, 0, 1), (0, 0, 0)], terminatorOp), ([(0, 0, 2)], returnOp)]"
    by code_simp
  have "\<forall>other op. getOp ?f other = Some op \<and> kind op = ParallelOp \<longrightarrow>
          other = [] @ [(0, 0, 1)] \<or> (\<exists>s. s \<noteq> [] \<and> other = ([] @ [(0, 0, 1)]) @ s)"
    unfolding walk_iff[symmetric] w
    by (auto simp: funcOp_def storeOp_def terminatorOp_def returnOp_def parallel_def)
  then show ?thesis
    using combineParallel_guards [of ?f "[]" 0 0
        "[storeOp, parallel [] [terminatorOp], returnOp]" 1]
    by (simp add: funcOp_def getBlock_def)
qed

lemma no_nested_list_all:
  "concat (concat regs) = [] \<Longrightarrow> list_all (list_all (list_all P)) regs"
  by (fastforce simp: list_all_iff)

lemma effect_only_read: "(e \<noteq> Write \<and> e \<noteq> Allocate \<and> e \<noteq> Free) = (e = Read)"
  by (cases e) simp_all

text \<open>
  Claim C5, as amended. For a fully effect-annotated operation (it and everything nested in
  it implements the memory-effect interface, and whatever has nested operations carries the
  recursive trait) the classifier returns read-only exactly when neither the operation nor
  anything nested in its regions declares a write, an allocation or a free.
\<close>

theorem isReadOnly_annotated:
  "annotated op \<Longrightarrow> isReadOnly op = performsOnlyReads op"
proof (induction op rule: isReadOnly.induct)
  case (1 k os rs regs rec eff)
  from "1.prems" obtain effects where eff: "eff = Some effects" by auto
  have nested: "list_all (list_all (list_all isReadOnly)) regs =
      list_all (list_all (list_all performsOnlyReads)) regs"
    using "1.IH" "1.prems" by (auto simp: list_all_iff)
  show ?case
  proof (cases rec)
    case True
    then show ?thesis using nested by (auto simp: eff effect_only_read)
  next
    case False
    with "1.prems" have "concat (concat regs) = []" by simp
    then have "list_all (list_all (list_all performsOnlyReads)) regs"
      by (rule no_nested_list_all)
    with False show ?thesis by (simp add: eff effect_only_read)
  qed
qed

theorem isReadOnly_annotated_witness:
  "isReadOnly (Operation (OtherOp ''scf.execute_region'') [] [] [[[loadOp]]] True (Some [])) \<and>
   performsOnlyReads
     (Operation (OtherOp ''scf.execute_region'') [] [] [[[loadOp]]] True (Some []))"
  using isReadOnly_annotated [of
      "Operation (OtherOp ''scf.execute_region'') [] [] [[[loadOp]]] True (Some [])"]
  by (simp add: loadOp_def)

text \<open>
  Claim C5 as stated fails in both directions. An operation without the interface, without
  regions and without effects is not classified read-only. An operation that declares a read
  and does not carry the recursive trait is classified read-only although a store is nested
  in its region.
\<close>

theorem isReadOnly_counterexample:
  "\<not> isReadOnly opaqueOp \<and> performsOnlyReads opaqueOp \<and>
   isReadOnly (Operation (OtherOp ''wrapper'') [] [] [[[storeOp]]] False (Some [Read])) \<and>
   \<not> performsOnlyReads (Operation (OtherOp ''wrapper'') [] [] [[[storeOp]]] False (Some [Read]))"
  by (simp add: opaqueOp_def storeOp_def)


section \<open>Uses of the relocated operation\<close>

text \<open>
  What the scan asks of a predecessor before relocating it, in terms of the tree: it is
  read-only, and every operation of the function that uses one of its results is the matched
  parallel operation or is nested in it.
\<close>

lemma canMove_iff:
  "canMove func nextParallel prevOp \<longleftrightarrow>
     isReadOnly prevOp \<and>
     (\<forall>v user op. v \<in> set (results prevOp) \<and> getOp func user = Some op \<and>
        v \<in> set (operands op) \<longrightarrow> (\<exists>s. user = nextParallel @ s))"
  unfolding canMove_def getUsers_def list_all_iff isAncestor_iff[symmetric]
  by (auto simp: walk_iff[symmetric])

text \<open>
  A relocated operation is put at the front of the matched parallel operation, so after the
  merge it stands behind the barrier.
\<close>

lemma combineParallel_relocate_then_merge:
  "combineParallel
     (funcOp [parallel [] [storeOp, terminatorOp], loadOp, parallel [] [useOp, terminatorOp],
        returnOp]) [] 0 0 2 =
   Inr (True, funcOp [parallel [] [storeOp, barrierOp, loadOp, useOp, terminatorOp], returnOp])"
  by code_simp


text \<open>
  Claim C4. The scan relocates a predecessor that is read-only when every user of its results
  has the matched parallel operation as ancestor, and \<open>isAncestor\<close> holds of an operation and
  itself. A use by the parallel operation itself does therefore not stop the relocation: in
  \<open>selfUse\<close> the load whose result is an operand of the parallel operation is moved into the
  region of that operation, which then uses a value defined inside itself, so that the use is
  no longer reachable from its definition.
\<close>

theorem combineParallel_self_use:
  "combineParallel selfUse [] 0 0 1 =
     Inr (True, funcOp [parallel [1] [loadOp, useOp, terminatorOp], parallel [] [terminatorOp],
       returnOp]) \<and>
   usesReachable selfUse \<and>
   \<not> usesReachable (funcOp [parallel [1] [loadOp, useOp, terminatorOp],
       parallel [] [terminatorOp], returnOp])"
  by code_simp

section \<open>The pass as a whole\<close>

text \<open>
  Claim C8. On \<open>selfUseStore\<close> no rule matches the second parallel operation, and
  CombineParallel on the first relocates the load into it. No rule matches afterwards: the
  pass converges, below the cap, to a function in which an operand of the parallel operation
  is defined inside that operation. Every use of the input was reachable from its
  definition; in the output that one is not.
\<close>

theorem runOnOperation_breaks_uses:
  "runOnOperation selfUseStore =
     Inr (funcOp [parallel [1] [loadOp, useOp, terminatorOp], storeOp,
       parallel [] [terminatorOp], returnOp]) \<and>
   driver maxIterations selfUseStore =
     Inr (True, funcOp [parallel [1] [loadOp, useOp, terminatorOp], storeOp,
       parallel [] [terminatorOp], returnOp]) \<and>
   tryPatterns selfUseStore [(0, 0, 3)] = Inr None \<and>
   usesReachable selfUseStore \<and>
   \<not> usesReachable (funcOp [parallel [1] [loadOp, useOp, terminatorOp], storeOp,
       parallel [] [terminatorOp], returnOp])"
  by code_simp

lemma filter_shift:
  "filter (\<lambda>(p, x). Q x \<and> p \<noteq> []) (map (\<lambda>(p, x). (s # p, x)) ws) =
   map (\<lambda>(p, x). (s # p, x)) (filter (\<lambda>(p, x). Q x) ws)"
  by (induction ws) auto

lemma filter_shift':
  "filter (\<lambda>(p, x). Q x) (map (\<lambda>(p, x). (s # p, x)) ws) =
   map (\<lambda>(p, x). (s # p, x)) (filter (\<lambda>(p, x). Q x) ws)"
  by (induction ws) auto

lemma map_fst_shift:
  "map fst (map (\<lambda>(p, x). (s # p, x)) ws) = map ((#) s) (map fst ws)"
  by (induction ws) auto

lemma parPaths_leaf:
  "k \<noteq> ParallelOp \<Longrightarrow> parPaths (Operation k os rs [] rec eff) = []"
  by (simp add: parPaths_def)

lemma parPaths_block2:
  "parPaths (Operation k os rs [[[x, y]]] rec eff) =
     (if k = ParallelOp then [[]] else []) @
     map ((#) (0, 0, 0)) (parPaths x) @ map ((#) (0, 0, 1)) (parPaths y)"
  by (simp add: parPaths_def filter_shift' map_fst_shift)

lemma parPaths_block3:
  "parPaths (Operation k os rs [[[x, y, z]]] rec eff) =
     (if k = ParallelOp then [[]] else []) @
     map ((#) (0, 0, 0)) (parPaths x) @ map ((#) (0, 0, 1)) (parPaths y) @
     map ((#) (0, 0, 2)) (parPaths z)"
  by (simp add: parPaths_def filter_shift' map_fst_shift numeral_2_eq_2)

lemma parallelOps_funcOp2:
  "parallelOps (funcOp [x, y]) =
     map ((#) (0, 0, 0)) (parPaths x) @ map ((#) (0, 0, 1)) (parPaths y)"
  by (simp add: parallelOps_def parPaths_def funcOp_def filter_shift map_fst_shift)

lemma parPaths_simple [simp]:
  "parPaths storeOp = []" "parPaths barrierOp = []" "parPaths yieldOp = []"
  "parPaths terminatorOp = []" "parPaths returnOp = []"
  by (simp_all add: parPaths_def storeOp_def barrierOp_def yieldOp_def terminatorOp_def
      returnOp_def)

lemma parPaths_innerLoop:
  "parPaths (forLoop (innerBody k @ [barrierOp, yieldOp])) = []"
  by (induction k) (simp_all add: forLoop_def parPaths_block3)

lemma parPaths_parallel:
  "parPaths (parallel [] (innerBody k @ [terminatorOp])) = [[]]"
  by (cases k) (simp_all add: parallel_def parPaths_block2 parPaths_innerLoop)

lemma parPaths_outerLoops:
  "parPaths x = [[]] \<Longrightarrow> parPaths (outerLoops m x) = [replicate m (0, 0, 0)]"
  by (induction m) (simp_all add: forLoop_def parPaths_block2)

lemma parallelOps_loopNest:
  "parallelOps (funcOp [outerLoops m (parallel [] (innerBody k @ [terminatorOp])), returnOp]) =
     [replicate (Suc m) (0, 0, 0)]"
  by (simp add: parallelOps_funcOp2 parPaths_outerLoops parPaths_parallel)

lemma getOp_outerLoops:
  "getOp (outerLoops (Suc m) x) (replicate m (0, 0, 0)) = Some (forLoop [x, yieldOp])"
  by (induction m) (simp_all add: forLoop_def)

lemma updOp_outerLoops:
  "updOp (replicate m (0, 0, 0)) (\<lambda>_. y) (outerLoops (Suc m) x) = outerLoops m y"
  by (induction m) (simp_all add: forLoop_def)

lemma last_replicate_Suc: "last (replicate (Suc m) x) = x"
  by simp

lemma butlast_replicate_Suc: "butlast (replicate (Suc m) x) = replicate m x"
  by (induction m) simp_all

lemma tryPatterns_loopNest:
  "tryPatterns
     (funcOp [outerLoops (Suc m) (parallel [] (innerBody k @ [terminatorOp])), returnOp])
     (replicate (Suc (Suc m)) (0, 0, 0)) =
   Inr (Some (funcOp [outerLoops m (parallel [] (innerBody (Suc k) @ [terminatorOp])),
     returnOp]))"
proof -
  let ?P = "parallel [] (innerBody k @ [terminatorOp])"
  let ?F = "forLoop [?P, yieldOp]"
  let ?T = "funcOp [outerLoops (Suc m) ?P, returnOp]"
  let ?owner = "replicate (Suc m) (0, 0, 0)"
  have op: "getOp ?T ?owner = Some ?F"
    using getOp_outerLoops[of m ?P] by (simp add: funcOp_def)
  have blk: "getBlock ?T ?owner 0 0 = Some [?P, yieldOp]"
    by (simp only: getBlock_def op) (simp add: forLoop_def)
  have c: "combineParallel ?T ?owner 0 0 0 = Inr (False, ?T)"
    by (simp only: combineParallel_def blk) (simp add: parallel_def)
  have front: "frontBlock ?P = Inr (innerBody k @ [terminatorOp])"
    by (simp add: frontBlock_def parallel_def)
  have f: "parallelForInterchange ?T ?owner 0 0 0 =
     Inr (True, updOp ?owner
       (\<lambda>_. setBlock 0 0 [setBlock 0 0 (butlast (innerBody k @ [terminatorOp]) @ [barrierOp, yieldOp]) ?F,
          clone (last (innerBody k @ [terminatorOp]))] ?P) ?T)"
    by (rule parallelForInterchange_fires[OF op _ _ _ blk _ front])
       (simp_all add: forLoop_def parallel_def terminatorOp_def)
  have p': "setBlock 0 0 [setBlock 0 0 (butlast (innerBody k @ [terminatorOp]) @ [barrierOp, yieldOp]) ?F,
          clone (last (innerBody k @ [terminatorOp]))] ?P =
        parallel [] (innerBody (Suc k) @ [terminatorOp])"
    by (simp add: forLoop_def parallel_def clone_def butlast_append)
  have u: "updOp ?owner (\<lambda>_. parallel [] (innerBody (Suc k) @ [terminatorOp])) ?T =
      funcOp [outerLoops m (parallel [] (innerBody (Suc k) @ [terminatorOp])), returnOp]"
    using updOp_outerLoops[of m "parallel [] (innerBody (Suc k) @ [terminatorOp])" ?P]
    by (simp add: funcOp_def del: outerLoops.simps)
  have f': "parallelForInterchange ?T ?owner 0 0 0 =
      Inr (True, funcOp [outerLoops m (parallel [] (innerBody (Suc k) @ [terminatorOp])),
        returnOp])"
    by (simp only: f p' u)
  show ?thesis
    unfolding tryPatterns_def last_replicate_Suc butlast_replicate_Suc
    by (simp only: c f' prod.case sum.case bool.case)
qed

lemma firstMatch_loopNest:
  "k < n \<Longrightarrow>
   firstMatch (loopNest n k) (parallelOps (loopNest n k)) = Inr (Some (loopNest n (Suc k)))"
proof -
  assume "k < n"
  then obtain m where m: "n - k = Suc m" "n - Suc k = m"
    by (metis Suc_diff_Suc)
  show ?thesis
    by (simp only: loopNest_def m parallelOps_loopNest firstMatch.simps tryPatterns_loopNest
        sum.case option.case)
qed

lemma firstMatch_loopNest_done:
  "firstMatch (loopNest n n) (parallelOps (loopNest n n)) = Inr None"
proof -
  let ?P = "parallel [] (innerBody n @ [terminatorOp])"
  let ?T = "funcOp [?P, returnOp]"
  have blk: "getBlock ?T [] 0 0 = Some [?P, returnOp]"
    by (simp add: getBlock_def funcOp_def)
  have c: "combineParallel ?T [] 0 0 0 = Inr (False, ?T)"
    by (simp only: combineParallel_def blk) (simp add: parallel_def)
  have f: "parallelForInterchange ?T [] 0 0 0 = Inr (False, ?T)"
    by (simp only: parallelForInterchange_def blk) (simp add: parallel_def funcOp_def)
  have i: "parallelIfInterchange ?T [] 0 0 0 = Inr (False, ?T)"
    by (simp only: parallelIfInterchange_def blk) (simp add: parallel_def funcOp_def)
  have t: "tryPatterns ?T [(0, 0, 0)] = Inr None"
    by (simp add: tryPatterns_def c f i)
  have p: "parallelOps ?T = [[(0, 0, 0)]]"
    using parallelOps_loopNest[of 0 n] by simp
  show ?thesis
    by (simp add: loopNest_def p t)
qed

lemma driver_loopNest:
  "k + j \<le> n \<Longrightarrow> driver j (loopNest n k) = Inr (False, loopNest n (k + j))"
proof (induction j arbitrary: k)
  case 0
  show ?case by simp
next
  case (Suc j)
  then have "k < n" and "Suc k + j \<le> n" by simp_all
  then show ?case
    using Suc.IH[of "Suc k"] by (simp add: firstMatch_loopNest)
qed

lemma driver_loopNest_converges:
  "k \<le> n \<Longrightarrow> n \<le> k + j \<Longrightarrow> driver (Suc j) (loopNest n k) = Inr (True, loopNest n n)"
proof (induction j arbitrary: k)
  case 0
  then have "k = n" by simp
  then show ?case by (simp add: firstMatch_loopNest_done)
next
  case (Suc j)
  show ?case
  proof (cases "k = n")
    case True
    then show ?thesis by (simp add: firstMatch_loopNest_done)
  next
    case False
    with Suc.prems have "k < n" "Suc k \<le> n" "n \<le> Suc k + j" by simp_all
    then show ?thesis
      using Suc.IH[of "Suc k"] by (simp add: firstMatch_loopNest)
  qed
qed

text \<open>
  Claim C9 as stated fails: on a parallel region at the bottom of 48 nested loops each
  iteration moves the region out of one loop, so the first run stops at the cap of 47 with
  one loop left around the region, and a second run moves the region out of that loop.
\<close>

theorem runOnOperation_not_idempotent:
  "runOnOperation (loopNest 48 0) = Inr (loopNest 48 47) \<and>
   runOnOperation (loopNest 48 47) = Inr (loopNest 48 48) \<and>
   loopNest 48 47 \<noteq> loopNest 48 48"
proof (intro conjI)
  show "runOnOperation (loopNest 48 0) = Inr (loopNest 48 47)"
    using driver_loopNest[of 0 47 48] by (simp add: runOnOperation_def maxIterations_def)
  have "driver (Suc 46) (loopNest 48 47) = Inr (True, loopNest 48 48)"
    by (rule driver_loopNest_converges) simp_all
  then show "runOnOperation (loopNest 48 47) = Inr (loopNest 48 48)"
    by (simp add: runOnOperation_def maxIterations_def)
  have "loopNest 48 47 = funcOp [outerLoops (Suc 0) (parallel [] (innerBody 47 @ [terminatorOp])), returnOp]"
    by (simp add: loopNest_def)
  moreover have "loopNest 48 48 = funcOp [outerLoops 0 (parallel [] (innerBody 48 @ [terminatorOp])), returnOp]"
    by (simp add: loopNest_def)
  ultimately show "loopNest 48 47 \<noteq> loopNest 48 48"
    by (simp add: funcOp_def forLoop_def parallel_def)
qed

lemma driver_converged:
  "driver n func = Inr (True, func') \<Longrightarrow> firstMatch func' (parallelOps func') = Inr None"
proof (induction n arbitrary: func)
  case 0
  then show ?case by simp
next
  case (Suc n)
  then show ?case
    by (auto split: sum.splits option.splits)
qed

lemma driver_fixpoint:
  "firstMatch func (parallelOps func) = Inr None \<Longrightarrow> 0 < n \<Longrightarrow>
   driver n func = Inr (True, func)"
  by (cases n) simp_all

text \<open>
  Claim C9, as amended. When the first run converged, that is stopped because no rule matched
  and not because the iterations ran out, a second run on its output changes nothing.
\<close>

theorem runOnOperation_idempotent_when_converged:
  "driver maxIterations func = Inr (True, func') \<Longrightarrow> runOnOperation func' = Inr func'"
proof -
  assume "driver maxIterations func = Inr (True, func')"
  then have "firstMatch func' (parallelOps func') = Inr None"
    by (rule driver_converged)
  then have "driver maxIterations func' = Inr (True, func')"
    by (rule driver_fixpoint) (simp add: maxIterations_def)
  then show ?thesis
    by (simp add: runOnOperation_def)
qed

theorem runOnOperation_idempotent_when_converged_witness:
  "runOnOperation
     (funcOp [parallel [] [storeOp, barrierOp, useOp, terminatorOp], returnOp]) =
   Inr (funcOp [parallel [] [storeOp, barrierOp, useOp, terminatorOp], returnOp])"
proof -
  have "driver maxIterations
      (funcOp [parallel [] [storeOp, terminatorOp], parallel [] [useOp, terminatorOp], returnOp])
    = Inr (True, funcOp [parallel [] [storeOp, barrierOp, useOp, terminatorOp], returnOp])"
    by code_simp
  then show ?thesis
    by (rule runOnOperation_idempotent_when_converged)
qed



end
